theory Spec2Isabelle
  imports Main
begin

section \<open>Strings\<close>

text \<open>
  Go strings are modelled as \<^typ>\<open>string\<close>. \<^verbatim>\<open>strings.ToLower\<close> and
  \<^verbatim>\<open>strings.ToUpper\<close> map a string through the Unicode case tables, which
  are no part of this repository. The two functions are therefore parameters: a
  value of type \<open>Strings\<close> stands for the Go package \<^verbatim>\<open>strings\<close>, every
  operation that calls one of them takes it as its first argument, and every
  theorem holds whatever the two functions are.
\<close>

record Strings =
  ToLower :: "string \<Rightarrow> string"
  ToUpper :: "string \<Rightarrow> string"

text \<open>
  On a string of ASCII characters the two functions shift the letters
  \<^verbatim>\<open>A\<close>..\<^verbatim>\<open>Z\<close> and \<^verbatim>\<open>a\<close>..\<^verbatim>\<open>z\<close> by 32 and keep every other character.
  \<open>ascii\<close> is this behaviour; it serves to evaluate the program at names,
  keys and values of ASCII characters, and nowhere else.
\<close>

definition lowerChar :: "char \<Rightarrow> char" where
  "lowerChar c =
     (let n = (of_char c :: nat)
      in if 65 \<le> n \<and> n \<le> 90 then char_of (n + 32) else c)"

definition upperChar :: "char \<Rightarrow> char" where
  "upperChar c =
     (let n = (of_char c :: nat)
      in if 97 \<le> n \<and> n \<le> 122 then char_of (n - 32) else c)"

definition ascii :: Strings where
  "ascii = \<lparr>ToLower = map lowerChar, ToUpper = map upperChar\<rparr>"

definition HasPrefix :: "string \<Rightarrow> string \<Rightarrow> bool" where
  "HasPrefix s p = (take (length p) s = p)"

definition TrimPrefix :: "string \<Rightarrow> string \<Rightarrow> string" where
  "TrimPrefix s p = (if HasPrefix s p then drop (length p) s else s)"

text \<open>
  \<^verbatim>\<open>strconv.ParseBool\<close> returns a value and an error; the error is the second
  component, \<open>True\<close> when the string is none of the twelve accepted spellings.
\<close>

definition ParseBool :: "string \<Rightarrow> bool \<times> bool" where
  "ParseBool str =
     (if str = ''1'' \<or> str = ''t'' \<or> str = ''T'' \<or> str = ''true'' \<or> str = ''TRUE''
         \<or> str = ''True'' then (True, False)
      else if str = ''0'' \<or> str = ''f'' \<or> str = ''F'' \<or> str = ''false'' \<or> str = ''FALSE''
         \<or> str = ''False'' then (False, False)
      else (False, True))"

section \<open>Constants\<close>

definition QueryPrefix :: string where
  "QueryPrefix = ''feature-''"

definition HeaderPrefix :: string where
  "HeaderPrefix = ''x-feature-''"

definition EnvPrefix :: string where
  "EnvPrefix = ''X_FEATURE_''"

section \<open>Contexts, environment and registry\<close>

text \<open>
  A \<^verbatim>\<open>context.Context\<close> is a chain of key/value links over the background
  context. Keys are compared with their dynamic type: a key of type
  \<^verbatim>\<open>Feature\<close> is \<open>FeatureKey\<close>, a key of any other type \<open>OtherKey\<close>. A stored
  value is \<^verbatim>\<open>nil\<close>, a \<^verbatim>\<open>bool\<close>, or a value of some other type.
\<close>

datatype key = FeatureKey string | OtherKey string

datatype val = NilVal | BoolVal bool | OtherVal string

datatype Context = Background | WithValue Context key val

text \<open>\<^verbatim>\<open>ctx.Value(key)\<close>: the most recent link with that key, \<^verbatim>\<open>nil\<close> when there is none.\<close>

fun Value :: "Context \<Rightarrow> key \<Rightarrow> val" where
  "Value Background k = NilVal"
| "Value (WithValue parent k' v) k = (if k' = k then v else Value parent k)"

text \<open>The process environment; \<^verbatim>\<open>os.Getenv\<close> gives the empty string for an unset variable.\<close>

type_synonym Env = "string \<rightharpoonup> string"

definition Getenv :: "Env \<Rightarrow> string \<Rightarrow> string" where
  "Getenv env k = (case env k of None \<Rightarrow> [] | Some v \<Rightarrow> v)"

text \<open>\<^verbatim>\<open>defaultState\<close>, a \<^verbatim>\<open>map[Feature]bool\<close>; reading a missing key gives \<^verbatim>\<open>false\<close>.\<close>

type_synonym Registry = "string \<rightharpoonup> bool"

definition index :: "Registry \<Rightarrow> string \<Rightarrow> bool" where
  "index defaultState name = (case defaultState name of None \<Rightarrow> False | Some b \<Rightarrow> b)"

section \<open>The resolver\<close>

text \<open>
  The run-time panics of the operations: a failed type assertion, a method call
  or field read through a \<^verbatim>\<open>nil\<close> context or pointer, and the panic of
  \<^verbatim>\<open>context.WithValue\<close> on a \<^verbatim>\<open>nil\<close> parent.
\<close>

datatype panic = TypeAssertionPanic | NilDereferencePanic | NilParentPanic

definition isEnabledInEnv :: "Strings \<Rightarrow> Env \<Rightarrow> string \<Rightarrow> bool \<times> bool" where
  "isEnabledInEnv strings env name =
     (let k = EnvPrefix @ ToUpper strings name; v = Getenv env k
      in if v \<noteq> [] then (fst (ParseBool v), True) else (False, False))"

definition IsEnabled :: "Strings \<Rightarrow> Context \<Rightarrow> Env \<Rightarrow> Registry \<Rightarrow> string \<Rightarrow> panic + bool" where
  "IsEnabled strings ctx env defaultState name0 =
     (let name = ToLower strings name0
      in case Value ctx (FeatureKey name) of
           BoolVal b \<Rightarrow> Inr b
         | OtherVal x \<Rightarrow> Inl TypeAssertionPanic
         | NilVal \<Rightarrow>
             (let (v, ok) = isEnabledInEnv strings env name
              in if ok then Inr v else Inr (index defaultState name)))"

definition Enable :: "string \<Rightarrow> Registry \<Rightarrow> Registry" where
  "Enable name defaultState = defaultState(name \<mapsto> True)"

definition Disable :: "string \<Rightarrow> Registry \<Rightarrow> Registry" where
  "Disable name defaultState = defaultState(name \<mapsto> False)"

definition EnableInCtx :: "Context \<Rightarrow> string \<Rightarrow> Context" where
  "EnableInCtx ctx f = WithValue ctx (FeatureKey f) (BoolVal True)"

definition DisableInCtx :: "Context \<Rightarrow> string \<Rightarrow> Context" where
  "DisableInCtx ctx f = WithValue ctx (FeatureKey f) (BoolVal False)"

section \<open>The request extractor\<close>

text \<open>
  \<^verbatim>\<open>url.Values\<close> is a \<^verbatim>\<open>map[string][]string\<close>. It is an association list
  here: the order of the list is the order in which \<^verbatim>\<open>range\<close> visits the keys,
  which Go leaves unspecified. \<open>Get\<close> is the first value of a key, the empty
  string when the key is missing or has no value.
\<close>

type_synonym Values = "(string \<times> string list) list"

definition Get :: "Values \<Rightarrow> string \<Rightarrow> string" where
  "Get values k =
     (case map_of values k of None \<Rightarrow> [] | Some [] \<Rightarrow> [] | Some (v # vs) \<Rightarrow> v)"

text \<open>The body of the loop of \<^verbatim>\<open>fromValues\<close>, for one key.\<close>

definition fromValuesStep :: "Strings \<Rightarrow> Values \<Rightarrow> string \<Rightarrow> Context \<Rightarrow> string \<Rightarrow> Context" where
  "fromValuesStep strings values prefix ctx k =
     (let lowerKey = ToLower strings k
      in if HasPrefix lowerKey prefix
         then (let trimKey = TrimPrefix lowerKey prefix;
                   strVal = Get values k;
                   val = fst (ParseBool strVal)
               in WithValue ctx (FeatureKey trimKey) (BoolVal (strVal = [] \<or> val)))
         else ctx)"

fun fromValuesLoop :: "Strings \<Rightarrow> Values \<Rightarrow> string \<Rightarrow> Context \<Rightarrow> string list \<Rightarrow> Context" where
  "fromValuesLoop strings values prefix ctx [] = ctx"
| "fromValuesLoop strings values prefix ctx (k # ks) =
     fromValuesLoop strings values prefix (fromValuesStep strings values prefix ctx k) ks"

definition fromValues :: "Strings \<Rightarrow> Context \<Rightarrow> Values \<Rightarrow> string \<Rightarrow> Context" where
  "fromValues strings ctx values prefix = fromValuesLoop strings values prefix ctx (map fst values)"

text \<open>
  An \<^verbatim>\<open>http.Request\<close>, reduced to what the extractor reads: its context, the
  parsed query of its URL and its header.
\<close>

record Request =
  reqCtx :: Context
  query :: Values
  header :: Values

definition ReqWithFeatureCtx :: "Strings \<Rightarrow> Request \<Rightarrow> Request" where
  "ReqWithFeatureCtx strings req =
     (let ctx = reqCtx req;
          ctx = fromValues strings ctx (query req) QueryPrefix;
          ctx = fromValues strings ctx (header req) HeaderPrefix
      in req\<lparr>reqCtx := ctx\<rparr>)"

section \<open>Calls with nil arguments\<close>

text \<open>
  The definitions above take a context and a request that exist. A Go caller
  can also pass the \<^verbatim>\<open>nil\<close> interface for a \<^verbatim>\<open>context.Context\<close> and a
  \<^verbatim>\<open>nil\<close> pointer for a \<^verbatim>\<open>*http.Request\<close>, and a request can have no URL. The
  calls below take such arguments: \<open>None\<close> is \<^verbatim>\<open>nil\<close>. \<^verbatim>\<open>ctx.Value\<close> on a
  \<^verbatim>\<open>nil\<close> context, \<^verbatim>\<open>req.Context()\<close> on a \<^verbatim>\<open>nil\<close> request and
  \<^verbatim>\<open>req.URL.Query()\<close> on a \<^verbatim>\<open>nil\<close> URL dereference \<^verbatim>\<open>nil\<close>;
  \<^verbatim>\<open>context.WithValue\<close> panics on a \<^verbatim>\<open>nil\<close> parent.
\<close>

definition IsEnabledCall ::
  "Strings \<Rightarrow> Context option \<Rightarrow> Env \<Rightarrow> Registry \<Rightarrow> string \<Rightarrow> panic + bool" where
  "IsEnabledCall strings ctx env defaultState name =
     (case ctx of
        None \<Rightarrow> Inl NilDereferencePanic
      | Some c \<Rightarrow> IsEnabled strings c env defaultState name)"

definition EnableInCtxCall :: "Context option \<Rightarrow> string \<Rightarrow> panic + Context" where
  "EnableInCtxCall ctx f =
     (case ctx of None \<Rightarrow> Inl NilParentPanic | Some c \<Rightarrow> Inr (EnableInCtx c f))"

definition DisableInCtxCall :: "Context option \<Rightarrow> string \<Rightarrow> panic + Context" where
  "DisableInCtxCall ctx f =
     (case ctx of None \<Rightarrow> Inl NilParentPanic | Some c \<Rightarrow> Inr (DisableInCtx c f))"

text \<open>
  The fields of an \<^verbatim>\<open>http.Request\<close> as they are stored: the context field is
  \<^verbatim>\<open>nil\<close> until one is set, and \<^verbatim>\<open>req.Context()\<close> then gives the background
  context; the URL is \<^verbatim>\<open>nil\<close> or has a query; ranging over a \<^verbatim>\<open>nil\<close> header
  visits nothing, as ranging over an empty one.
\<close>

record RequestFields =
  ctxField :: "Context option"
  URLField :: "Values option"
  HeaderField :: Values

definition ContextOf :: "RequestFields \<Rightarrow> Context" where
  "ContextOf r = (case ctxField r of None \<Rightarrow> Background | Some c \<Rightarrow> c)"

definition ReqWithFeatureCtxCall :: "Strings \<Rightarrow> RequestFields option \<Rightarrow> panic + Request" where
  "ReqWithFeatureCtxCall strings req =
     (case req of
        None \<Rightarrow> Inl NilDereferencePanic
      | Some r \<Rightarrow>
          (case URLField r of
             None \<Rightarrow> Inl NilDereferencePanic
           | Some q \<Rightarrow>
               Inr (ReqWithFeatureCtx strings
                      \<lparr>reqCtx = ContextOf r, query = q, header = HeaderField r\<rparr>)))"

section \<open>Contexts as objects\<close>

text \<open>
  In Go a context and a request are objects behind pointers, and two holders of
  a pointer see the same object. To state that an operation leaves the objects
  of its caller alone, the objects live in a store and a pointer is an index
  into it. \<^verbatim>\<open>context.WithValue\<close> allocates a \<^verbatim>\<open>valueCtx\<close> that points at its
  parent; \<^verbatim>\<open>req.WithContext\<close> allocates a copy of the request with the context
  pointer replaced.
\<close>

type_synonym ptr = nat

datatype ctxObj = emptyCtx | valueCtx ptr key val

record reqObj =
  ctxPtr :: ptr
  URLQuery :: Values
  Header :: Values

record Store =
  contexts :: "ctxObj list"
  requests :: "reqObj list"

text \<open>
  The chain of links a context pointer stands for. A parent is allocated before
  its child, so its index is smaller; an index that names no object stands for
  no context of the program and reads as the background context.
\<close>

function chain :: "ctxObj list \<Rightarrow> ptr \<Rightarrow> Context" where
  "chain h p =
     (if p < length h
      then (case h ! p of
              emptyCtx \<Rightarrow> Background
            | valueCtx parent k v \<Rightarrow>
                if parent < p then WithValue (chain h parent) k v else Background)
      else Background)"
  by pat_completeness auto
termination
  by (relation "measure snd") auto

declare chain.simps [simp del]

definition WithValueAt :: "Store \<Rightarrow> ptr \<Rightarrow> key \<Rightarrow> val \<Rightarrow> Store \<times> ptr" where
  "WithValueAt s parent k v =
     (s\<lparr>contexts := contexts s @ [valueCtx parent k v]\<rparr>, length (contexts s))"

definition EnableInCtxAt :: "Store \<Rightarrow> ptr \<Rightarrow> string \<Rightarrow> Store \<times> ptr" where
  "EnableInCtxAt s ctx f = WithValueAt s ctx (FeatureKey f) (BoolVal True)"

definition DisableInCtxAt :: "Store \<Rightarrow> ptr \<Rightarrow> string \<Rightarrow> Store \<times> ptr" where
  "DisableInCtxAt s ctx f = WithValueAt s ctx (FeatureKey f) (BoolVal False)"

definition fromValuesStepAt :: "Strings \<Rightarrow> Values \<Rightarrow> string \<Rightarrow> Store \<times> ptr \<Rightarrow> string \<Rightarrow> Store \<times> ptr" where
  "fromValuesStepAt strings values prefix sc k =
     (let lowerKey = ToLower strings k
      in if HasPrefix lowerKey prefix
         then (let trimKey = TrimPrefix lowerKey prefix;
                   strVal = Get values k;
                   val = fst (ParseBool strVal)
               in WithValueAt (fst sc) (snd sc) (FeatureKey trimKey) (BoolVal (strVal = [] \<or> val)))
         else sc)"

fun fromValuesLoopAt :: "Strings \<Rightarrow> Values \<Rightarrow> string \<Rightarrow> Store \<times> ptr \<Rightarrow> string list \<Rightarrow> Store \<times> ptr" where
  "fromValuesLoopAt strings values prefix sc [] = sc"
| "fromValuesLoopAt strings values prefix sc (k # ks) =
     fromValuesLoopAt strings values prefix (fromValuesStepAt strings values prefix sc k) ks"

definition fromValuesAt :: "Strings \<Rightarrow> Store \<Rightarrow> ptr \<Rightarrow> Values \<Rightarrow> string \<Rightarrow> Store \<times> ptr" where
  "fromValuesAt strings s ctx values prefix = fromValuesLoopAt strings values prefix (s, ctx) (map fst values)"

text \<open>
  The request pointer of \<open>ReqWithFeatureCtxAt\<close> names an allocated request;
  for an index that names none there is no result.
\<close>

definition ReqWithFeatureCtxAt :: "Strings \<Rightarrow> Store \<Rightarrow> ptr \<Rightarrow> (Store \<times> ptr) option" where
  "ReqWithFeatureCtxAt strings s r =
     (if r < length (requests s)
      then (let req = requests s ! r;
                sc1 = fromValuesAt strings s (ctxPtr req) (URLQuery req) QueryPrefix;
                sc2 = fromValuesAt strings (fst sc1) (snd sc1) (Header req) HeaderPrefix;
                s2 = fst sc2
            in Some (s2\<lparr>requests := requests s2 @ [req\<lparr>ctxPtr := snd sc2\<rparr>]\<rparr>,
                     length (requests s2)))
      else None)"

text \<open>The request object as the record the extractor of the previous section reads.\<close>

definition requestOf :: "Store \<Rightarrow> ptr \<Rightarrow> Request" where
  "requestOf s r =
     \<lparr>reqCtx = chain (contexts s) (ctxPtr (requests s ! r)),
      query = URLQuery (requests s ! r),
      header = Header (requests s ! r)\<rparr>"

section \<open>The specification's notions\<close>

text \<open>
  The three layers of the resolver as the specification names them, each either
  defining a boolean or not, and the rule that the first defined layer wins.
\<close>

definition spec_ctxLayer :: "Context \<Rightarrow> string \<Rightarrow> bool option" where
  "spec_ctxLayer ctx name =
     (case Value ctx (FeatureKey name) of
        BoolVal b \<Rightarrow> Some b
      | NilVal \<Rightarrow> None
      | OtherVal x \<Rightarrow> None)"

definition spec_envLayer :: "Strings \<Rightarrow> Env \<Rightarrow> string \<Rightarrow> bool option" where
  "spec_envLayer strings env name =
     (case env (EnvPrefix @ ToUpper strings name) of
        None \<Rightarrow> None
      | Some v \<Rightarrow> if v = [] then None else Some (fst (ParseBool v)))"

fun spec_firstDefined :: "bool option list \<Rightarrow> bool" where
  "spec_firstDefined [] = False"
| "spec_firstDefined (Some b # layers) = b"
| "spec_firstDefined (None # layers) = spec_firstDefined layers"

text \<open>A value that the type assertion of \<open>IsEnabled\<close> accepts, or \<^verbatim>\<open>nil\<close>.\<close>

definition boolOrNil :: "val \<Rightarrow> bool" where
  "boolOrNil v = (case v of OtherVal x \<Rightarrow> False | BoolVal b \<Rightarrow> True | NilVal \<Rightarrow> True)"

text \<open>The twelve spellings \<^verbatim>\<open>strconv.ParseBool\<close> accepts.\<close>

definition trueSpellings :: "string list" where
  "trueSpellings = [''true'', ''TRUE'', ''True'', ''t'', ''T'', ''1'']"

definition falseSpellings :: "string list" where
  "falseSpellings = [''false'', ''FALSE'', ''False'', ''f'', ''F'', ''0'']"

text \<open>
  The boolean the extractor records for a query or header value: true for the
  empty string, the conventional boolean for a spelling, false otherwise.
\<close>

definition spec_flagValue :: "string \<Rightarrow> bool" where
  "spec_flagValue v =
     (if v = [] then True
      else if v \<in> set trueSpellings then True
      else if v \<in> set falseSpellings then False
      else False)"

text \<open>
  The extractor in the specification's words: of the entries in the order they
  are visited, keep those whose lower-cased key starts with the prefix, and for
  each record the flag value under the lower-cased key without the prefix.
\<close>

definition spec_extract :: "Strings \<Rightarrow> Context \<Rightarrow> Values \<Rightarrow> string \<Rightarrow> Context" where
  "spec_extract strings ctx values prefix =
     foldl (\<lambda>c k. WithValue c (FeatureKey (drop (length prefix) (ToLower strings k)))
                     (BoolVal (spec_flagValue (Get values k))))
       ctx (filter (\<lambda>k. take (length prefix) (ToLower strings k) = prefix) (map fst values))"

text \<open>
  The flag a key names under a prefix, the boolean an entry records, and the
  last key of a visiting order that names a given flag.
\<close>

definition flagOf :: "Strings \<Rightarrow> string \<Rightarrow> string \<Rightarrow> string option" where
  "flagOf strings prefix k =
     (if HasPrefix (ToLower strings k) prefix then Some (TrimPrefix (ToLower strings k) prefix) else None)"

definition recorded :: "Values \<Rightarrow> string \<Rightarrow> bool" where
  "recorded values k = (Get values k = [] \<or> fst (ParseBool (Get values k)))"

definition lastKeyFor :: "Strings \<Rightarrow> string \<Rightarrow> string \<Rightarrow> string list \<Rightarrow> string option" where
  "lastKeyFor strings prefix f ks = List.find (\<lambda>k. flagOf strings prefix k = Some f) (rev ks)"

text \<open>
  The derivations of this package, and the contexts they build from a base
  context.
\<close>

datatype derivation = EnableStep string | DisableStep string | RequestStep Values Values

fun derive :: "Strings \<Rightarrow> Context \<Rightarrow> derivation \<Rightarrow> Context" where
  "derive strings ctx (EnableStep f) = EnableInCtx ctx f"
| "derive strings ctx (DisableStep f) = DisableInCtx ctx f"
| "derive strings ctx (RequestStep q h) =
     reqCtx (ReqWithFeatureCtx strings \<lparr>reqCtx = ctx, query = q, header = h\<rparr>)"

text \<open>No link of the chain has a key of type \<^verbatim>\<open>Feature\<close>.\<close>

fun noFeatureKeys :: "Context \<Rightarrow> bool" where
  "noFeatureKeys Background = True"
| "noFeatureKeys (WithValue parent (FeatureKey f) v) = False"
| "noFeatureKeys (WithValue parent (OtherKey k) v) = noFeatureKeys parent"

text \<open>Every link of the chain with a key of type \<^verbatim>\<open>Feature\<close> holds a \<^verbatim>\<open>bool\<close>.\<close>

fun featureValuesBool :: "Context \<Rightarrow> bool" where
  "featureValuesBool Background = True"
| "featureValuesBool (WithValue parent (FeatureKey f) v) =
     ((case v of BoolVal b \<Rightarrow> True | NilVal \<Rightarrow> False | OtherVal x \<Rightarrow> False)
      \<and> featureValuesBool parent)"
| "featureValuesBool (WithValue parent (OtherKey k) v) = featureValuesBool parent"

section \<open>Parsing\<close>

lemma ParseBool_value: "fst (ParseBool v) = (v \<in> set trueSpellings)"
  by (auto simp: ParseBool_def trueSpellings_def)

lemma ParseBool_error:
  "snd (ParseBool v) = (v \<notin> set trueSpellings \<and> v \<notin> set falseSpellings)"
  by (auto simp: ParseBool_def trueSpellings_def falseSpellings_def)

lemma isEnabledInEnv_layer:
  "isEnabledInEnv strings env name =
     (case spec_envLayer strings env name of None \<Rightarrow> (False, False) | Some b \<Rightarrow> (b, True))"
  by (simp add: isEnabledInEnv_def spec_envLayer_def Getenv_def Let_def split: option.split)

section \<open>The resolver: precedence of the layers\<close>

text \<open>
  C1 (amended). For every environment and registry, and every context in which
  the value found under the lower-cased flag name is \<^verbatim>\<open>nil\<close> or a \<^verbatim>\<open>bool\<close>,
  \<open>IsEnabled\<close> returns the value of the first of the layers context,
  environment, registry that defines one, and false when none does. The layers
  after the first defined one do not enter the result.
\<close>

theorem IsEnabled_precedence:
  assumes "boolOrNil (Value ctx (FeatureKey (ToLower strings name)))"
  shows "IsEnabled strings ctx env defaultState name =
           Inr (spec_firstDefined
                  [spec_ctxLayer ctx (ToLower strings name),
                   spec_envLayer strings env (ToLower strings name),
                   defaultState (ToLower strings name)])"
  using assms
  by (simp add: IsEnabled_def isEnabledInEnv_layer spec_ctxLayer_def boolOrNil_def index_def
        Let_def split: val.splits option.splits)

theorem IsEnabled_precedence_witness:
  "boolOrNil (Value Background (FeatureKey (ToLower ascii ''Paginate'')))
   \<and> IsEnabled ascii Background [''X_FEATURE_PAGINATE'' \<mapsto> ''false''] [''paginate'' \<mapsto> True]
        ''Paginate'' = Inr False"
proof -
  have h: "boolOrNil (Value Background (FeatureKey (ToLower ascii ''Paginate'')))"
    by code_simp
  have r: "spec_firstDefined
             [spec_ctxLayer Background (ToLower ascii ''Paginate''),
              spec_envLayer ascii [''X_FEATURE_PAGINATE'' \<mapsto> ''false''] (ToLower ascii ''Paginate''),
              [''paginate'' \<mapsto> True] (ToLower ascii ''Paginate'')] = False"
    by code_simp
  from IsEnabled_precedence [OF h, of "[''X_FEATURE_PAGINATE'' \<mapsto> ''false'']"
      "[''paginate'' \<mapsto> True]"]
  have "IsEnabled ascii Background [''X_FEATURE_PAGINATE'' \<mapsto> ''false''] [''paginate'' \<mapsto> True]
          ''Paginate'' = Inr False"
    by (simp only: r)
  with h show ?thesis by (rule conjI)
qed

text \<open>
  C1 as stated, for every context, fails: a context that holds a value that is
  not a \<^verbatim>\<open>bool\<close> under the flag's key makes the type assertion of
  \<open>IsEnabled\<close> panic, so no layer's value and no default is returned.
\<close>

theorem IsEnabled_precedence_counterexample:
  "IsEnabled ascii (WithValue Background (FeatureKey ''paginate'') (OtherVal ''on''))
     [''X_FEATURE_PAGINATE'' \<mapsto> ''true''] [''paginate'' \<mapsto> True] ''paginate''
   = Inl TypeAssertionPanic"
  by code_simp

text \<open>
  C3. When the value the context holds under the lower-cased flag name is a
  \<^verbatim>\<open>bool\<close>, \<open>IsEnabled\<close> returns that boolean, whatever the environment and
  the registry hold.
\<close>

theorem IsEnabled_context_first:
  assumes "Value ctx (FeatureKey (ToLower strings name)) = BoolVal b"
  shows "IsEnabled strings ctx env defaultState name = Inr b"
  using assms by (simp add: IsEnabled_def)

theorem IsEnabled_context_first_witness:
  "Value (DisableInCtx Background ''paginate'') (FeatureKey (ToLower ascii ''Paginate'')) = BoolVal False
   \<and> IsEnabled ascii (DisableInCtx Background ''paginate'') [''X_FEATURE_PAGINATE'' \<mapsto> ''true'']
        (Enable ''paginate'' Map.empty) ''Paginate'' = Inr False
   \<and> Value (EnableInCtx Background ''paginate'') (FeatureKey (ToLower ascii ''Paginate'')) = BoolVal True
   \<and> IsEnabled ascii (EnableInCtx Background ''paginate'') [''X_FEATURE_PAGINATE'' \<mapsto> ''false'']
        (Disable ''paginate'' Map.empty) ''Paginate'' = Inr True"
proof -
  have off: "Value (DisableInCtx Background ''paginate'') (FeatureKey (ToLower ascii ''Paginate''))
               = BoolVal False"
    by code_simp
  have on: "Value (EnableInCtx Background ''paginate'') (FeatureKey (ToLower ascii ''Paginate''))
              = BoolVal True"
    by code_simp
  show ?thesis
    using off on
      IsEnabled_context_first [OF off, of "[''X_FEATURE_PAGINATE'' \<mapsto> ''true'']"
        "Enable ''paginate'' Map.empty"]
      IsEnabled_context_first [OF on, of "[''X_FEATURE_PAGINATE'' \<mapsto> ''false'']"
        "Disable ''paginate'' Map.empty"]
    by (intro conjI)
qed

section \<open>The resolver: the environment layer\<close>

text \<open>
  C6. \<open>isEnabledInEnv\<close> reads the variable named \<^verbatim>\<open>X_FEATURE_\<close> followed
  by the upper-cased flag name it is given, and \<open>IsEnabled\<close> gives it the
  lower-cased flag name it resolves. When the context holds no value for the
  flag: unset or empty, the layer is not defined and the registry decides;
  non-empty, the layer is defined and its value is that of
  \<^verbatim>\<open>strconv.ParseBool\<close>, true for a true spelling, false for every other
  string, and never an error.
\<close>

theorem IsEnabled_environment_layer:
  assumes "Value ctx (FeatureKey (ToLower strings name)) = NilVal"
  shows "isEnabledInEnv strings env flag =
           (case env (EnvPrefix @ ToUpper strings flag) of
              None \<Rightarrow> (False, False)
            | Some v \<Rightarrow> if v = [] then (False, False) else (v \<in> set trueSpellings, True))
         \<and> IsEnabled strings ctx env defaultState name =
           (case env (EnvPrefix @ ToUpper strings (ToLower strings name)) of
              None \<Rightarrow> Inr (index defaultState (ToLower strings name))
            | Some v \<Rightarrow>
                if v = [] then Inr (index defaultState (ToLower strings name))
                else Inr (v \<in> set trueSpellings))"
  using assms
  by (simp add: IsEnabled_def isEnabledInEnv_def Getenv_def ParseBool_value Let_def
        split: option.split)

theorem IsEnabled_environment_layer_witness:
  "Value Background (FeatureKey (ToLower ascii ''Paginate'')) = NilVal
   \<and> IsEnabled ascii Background [''X_FEATURE_PAGINATE'' \<mapsto> ''1''] Map.empty ''Paginate''
       = Inr True
   \<and> IsEnabled ascii Background [''X_FEATURE_PAGINATE'' \<mapsto> ''yes'']
        (Enable ''paginate'' Map.empty) ''Paginate'' = Inr False
   \<and> IsEnabled ascii Background [''X_FEATURE_PAGINATE'' \<mapsto> []]
        (Enable ''paginate'' Map.empty) ''Paginate'' = Inr True"
proof -
  have h: "Value Background (FeatureKey (ToLower ascii ''Paginate'')) = NilVal"
    by simp
  have k: "EnvPrefix @ ToUpper ascii (ToLower ascii ''Paginate'') = ''X_FEATURE_PAGINATE''"
    and l: "ToLower ascii ''Paginate'' = ''paginate''"
    by code_simp+
  have one: "''1'' \<in> set trueSpellings" and yes: "''yes'' \<notin> set trueSpellings"
    by (simp_all add: trueSpellings_def)
  have reg: "index (Enable ''paginate'' Map.empty) ''paginate'' = True"
    by (simp add: index_def Enable_def)
  note layer = IsEnabled_environment_layer [OF h, THEN conjunct2]
  have a: "IsEnabled ascii Background [''X_FEATURE_PAGINATE'' \<mapsto> ''1''] Map.empty ''Paginate''
             = Inr True"
    by (simp add: layer k one)
  have b: "IsEnabled ascii Background [''X_FEATURE_PAGINATE'' \<mapsto> ''yes'']
             (Enable ''paginate'' Map.empty) ''Paginate'' = Inr False"
    using yes by (simp add: layer k)
  have c: "IsEnabled ascii Background [''X_FEATURE_PAGINATE'' \<mapsto> []]
             (Enable ''paginate'' Map.empty) ''Paginate'' = Inr True"
    by (simp add: layer k l reg)
  from h a b c show ?thesis by (intro conjI)
qed

section \<open>Flag names and their case\<close>

text \<open>
  C2. \<open>IsEnabled\<close> and \<open>fromValues\<close> lower-case the flag name; \<open>Enable\<close>,
  \<open>Disable\<close>, \<open>EnableInCtx\<close> and \<open>DisableInCtx\<close> store it as it is written.
  A flag enabled under a name with a capital letter is therefore not enabled for
  any spelling \<open>IsEnabled\<close> is asked about, not even the one it was enabled under.
\<close>

theorem Enable_keeps_case:
  "IsEnabled ascii Background Map.empty (Enable ''Paginate'' Map.empty) ''Paginate'' = Inr False
   \<and> IsEnabled ascii Background Map.empty (Enable ''Paginate'' Map.empty) ''paginate'' = Inr False
   \<and> IsEnabled ascii (EnableInCtx Background ''Paginate'') Map.empty Map.empty ''Paginate'' = Inr False
   \<and> IsEnabled ascii (EnableInCtx Background ''Paginate'') Map.empty Map.empty ''paginate'' = Inr False
   \<and> IsEnabled ascii Background Map.empty (Enable ''paginate'' Map.empty) ''Paginate'' = Inr True"
  by code_simp

section \<open>The request extractor: what is recorded\<close>

lemma spec_flagValue_eq: "spec_flagValue v = (v = [] \<or> fst (ParseBool v))"
  by (simp add: spec_flagValue_def ParseBool_value)

lemma fromValuesStep_spec:
  "fromValuesStep strings values prefix ctx k =
     (if take (length prefix) (ToLower strings k) = prefix
      then WithValue ctx (FeatureKey (drop (length prefix) (ToLower strings k)))
             (BoolVal (spec_flagValue (Get values k)))
      else ctx)"
  by (simp add: fromValuesStep_def HasPrefix_def TrimPrefix_def Let_def spec_flagValue_eq)

lemma fromValuesLoop_spec:
  "fromValuesLoop strings values prefix ctx ks =
     foldl (\<lambda>c k. WithValue c (FeatureKey (drop (length prefix) (ToLower strings k)))
                     (BoolVal (spec_flagValue (Get values k))))
       ctx (filter (\<lambda>k. take (length prefix) (ToLower strings k) = prefix) ks)"
  by (induction ks arbitrary: ctx) (simp_all add: fromValuesStep_spec)

text \<open>
  C5 (amended). \<open>fromValues\<close> visits exactly the keys whose lower-cased form
  starts with the prefix, drops the prefix from the lower-cased key to get the
  flag name, and records under it: true for the empty value, true for the
  spellings true, TRUE, True, t, T, 1, false for the spellings false, FALSE,
  False, f, F, 0, and false for every other value. \<open>ReqWithFeatureCtx\<close> does
  this for the query with the prefix \<^verbatim>\<open>feature-\<close> and then for the header with
  the prefix \<^verbatim>\<open>x-feature-\<close>.
\<close>

theorem fromValues_extracts:
  "fromValues strings ctx values prefix = spec_extract strings ctx values prefix
   \<and> ReqWithFeatureCtx strings req =
       req\<lparr>reqCtx := spec_extract strings (spec_extract strings (reqCtx req) (query req) ''feature-'')
                        (header req) ''x-feature-''\<rparr>"
  by (simp add: fromValues_def spec_extract_def fromValuesLoop_spec ReqWithFeatureCtx_def
        QueryPrefix_def HeaderPrefix_def Let_def)

text \<open>
  C5 as stated counts \<^verbatim>\<open>True\<close> among the other non-empty values, which are to
  record false; \<^verbatim>\<open>strconv.ParseBool\<close> accepts it and the extractor records
  true.
\<close>

theorem fromValues_extracts_counterexample:
  "Value (reqCtx (ReqWithFeatureCtx ascii
       \<lparr>reqCtx = Background, query = [(''feature-paginate'', [''True''])], header = []\<rparr>))
     (FeatureKey ''paginate'') = BoolVal True"
  by code_simp

lemma fromValuesLoop_append:
  "fromValuesLoop strings values prefix ctx (ks @ ks') =
     fromValuesLoop strings values prefix (fromValuesLoop strings values prefix ctx ks) ks'"
  by (induction ks arbitrary: ctx) simp_all

lemma Value_fromValuesStep:
  "Value (fromValuesStep strings values prefix ctx k) (FeatureKey f) =
     (if flagOf strings prefix k = Some f then BoolVal (recorded values k) else Value ctx (FeatureKey f))"
  by (simp add: fromValuesStep_def flagOf_def recorded_def Let_def)

lemma Value_fromValuesLoop:
  "Value (fromValuesLoop strings values prefix ctx ks) (FeatureKey f) =
     (case lastKeyFor strings prefix f ks of
        Some k \<Rightarrow> BoolVal (recorded values k)
      | None \<Rightarrow> Value ctx (FeatureKey f))"
proof (induction ks rule: rev_induct)
  case Nil
  show ?case by (simp add: lastKeyFor_def)
next
  case (snoc k ks)
  then show ?case
    by (simp add: fromValuesLoop_append Value_fromValuesStep lastKeyFor_def)
qed

text \<open>
  C4. In the context \<open>ReqWithFeatureCtx\<close> derives, the value of a flag is the
  one recorded for the last visited header key that names the flag; when no
  header key names it, the one recorded for the last visited query key that
  names it; and when no key names it, the value of the request's own context.
  So the header wins over the query, and within one collection the entry
  visited later wins.
\<close>

theorem ReqWithFeatureCtx_header_after_query:
  "Value (reqCtx (ReqWithFeatureCtx strings req)) (FeatureKey f) =
     (case lastKeyFor strings HeaderPrefix f (map fst (header req)) of
        Some k \<Rightarrow> BoolVal (recorded (header req) k)
      | None \<Rightarrow>
          (case lastKeyFor strings QueryPrefix f (map fst (query req)) of
             Some k \<Rightarrow> BoolVal (recorded (query req) k)
           | None \<Rightarrow> Value (reqCtx req) (FeatureKey f)))"
  by (simp add: ReqWithFeatureCtx_def fromValues_def Value_fromValuesLoop Let_def split: option.split)

theorem ReqWithFeatureCtx_header_after_query_witness:
  "Value (reqCtx (ReqWithFeatureCtx ascii
       \<lparr>reqCtx = Background,
        query = [(''feature-paginate'', [''true''])],
        header = [(''X-Feature-Paginate'', [''1'']), (''x-feature-PAGINATE'', [''false''])]\<rparr>))
     (FeatureKey ''paginate'') = BoolVal False"
proof -
  have k: "lastKeyFor ascii HeaderPrefix ''paginate'' [''X-Feature-Paginate'', ''x-feature-PAGINATE'']
           = Some ''x-feature-PAGINATE''"
    by code_simp
  have v: "recorded [(''X-Feature-Paginate'', [''1'']), (''x-feature-PAGINATE'', [''false''])]
             ''x-feature-PAGINATE'' = False"
    by code_simp
  show ?thesis
    using ReqWithFeatureCtx_header_after_query
      [of ascii "\<lparr>reqCtx = Background,
            query = [(''feature-paginate'', [''true''])],
            header = [(''X-Feature-Paginate'', [''1'']), (''x-feature-PAGINATE'', [''false''])]\<rparr>"
          "''paginate''"]
    by (simp add: k v)
qed

section \<open>Contexts built by this package\<close>

lemma noFeatureKeys_bool: "noFeatureKeys c \<Longrightarrow> featureValuesBool c"
  by (induction c rule: featureValuesBool.induct) simp_all

lemma featureValuesBool_Value:
  "featureValuesBool c \<Longrightarrow> boolOrNil (Value c (FeatureKey f))"
  by (induction c rule: featureValuesBool.induct)
    (auto simp: boolOrNil_def split: val.splits)

lemma featureValuesBool_step:
  "featureValuesBool c \<Longrightarrow> featureValuesBool (fromValuesStep strings vs prefix c k)"
  by (simp add: fromValuesStep_def Let_def)

lemma featureValuesBool_loop:
  "featureValuesBool c \<Longrightarrow> featureValuesBool (fromValuesLoop strings vs prefix c ks)"
  by (induction ks arbitrary: c) (simp_all add: featureValuesBool_step)

lemma featureValuesBool_derive:
  "featureValuesBool c \<Longrightarrow> featureValuesBool (derive strings c d)"
  by (cases d)
    (simp_all add: EnableInCtx_def DisableInCtx_def ReqWithFeatureCtx_def fromValues_def
      featureValuesBool_loop Let_def)

lemma featureValuesBool_foldl:
  "featureValuesBool c \<Longrightarrow> featureValuesBool (foldl (derive strings) c ds)"
  by (induction ds arbitrary: c) (simp_all add: featureValuesBool_derive)

lemma IsEnabled_returns:
  "boolOrNil (Value ctx (FeatureKey (ToLower strings name))) \<Longrightarrow>
   \<exists>b. IsEnabled strings ctx env defaultState name = Inr b"
  by (simp add: IsEnabled_def boolOrNil_def Let_def split: val.splits prod.splits)

text \<open>
  C10. Starting from a base context with no key of type \<^verbatim>\<open>Feature\<close>, after any
  sequence of \<open>EnableInCtx\<close>, \<open>DisableInCtx\<close> and \<open>ReqWithFeatureCtx\<close>
  derivations every value the chain holds under such a key is a \<^verbatim>\<open>bool\<close>, and
  \<open>IsEnabled\<close> returns a boolean: its type assertion does not panic.
\<close>

theorem derived_contexts_hold_booleans:
  assumes "noFeatureKeys base"
  shows "featureValuesBool (foldl (derive strings) base steps)
       \<and> (\<exists>b. IsEnabled strings (foldl (derive strings) base steps) env defaultState name = Inr b)"
proof -
  have "featureValuesBool (foldl (derive strings) base steps)"
    using assms by (simp add: noFeatureKeys_bool featureValuesBool_foldl)
  then show ?thesis
    by (simp add: featureValuesBool_Value IsEnabled_returns)
qed

theorem derived_contexts_hold_booleans_witness:
  "noFeatureKeys (WithValue Background (OtherKey ''requestID'') (OtherVal ''42''))
   \<and> featureValuesBool
        (foldl (derive ascii) (WithValue Background (OtherKey ''requestID'') (OtherVal ''42''))
           [EnableStep ''Beta'',
            RequestStep [(''feature-paginate'', [''maybe''])] [(''X-Feature-Beta'', [])],
            DisableStep ''paginate''])
   \<and> (\<exists>b. IsEnabled ascii
        (foldl (derive ascii) (WithValue Background (OtherKey ''requestID'') (OtherVal ''42''))
           [EnableStep ''Beta'',
            RequestStep [(''feature-paginate'', [''maybe''])] [(''X-Feature-Beta'', [])],
            DisableStep ''paginate''])
        Map.empty Map.empty ''Beta'' = Inr b)"
proof -
  have h: "noFeatureKeys (WithValue Background (OtherKey ''requestID'') (OtherVal ''42''))"
    by simp
  from h derived_contexts_hold_booleans [OF h, of ascii
      "[EnableStep ''Beta'',
        RequestStep [(''feature-paginate'', [''maybe''])] [(''X-Feature-Beta'', [])],
        DisableStep ''paginate'']" Map.empty Map.empty "''Beta''"]
  show ?thesis by (intro conjI) simp_all
qed

section \<open>Failures\<close>

text \<open>
  C9 (amended). No operation returns an error value, and each is total on the
  following inputs. \<open>Enable\<close> and \<open>Disable\<close>: every name and registry.
  \<open>EnableInCtx\<close> and \<open>DisableInCtx\<close>: every context that is not \<^verbatim>\<open>nil\<close>.
  \<open>ReqWithFeatureCtx\<close>: every request that is not \<^verbatim>\<open>nil\<close> and has a URL.
  \<open>IsEnabled\<close>: every environment and registry and every context that is not
  \<^verbatim>\<open>nil\<close> and in which the value found under the lower-cased flag name is
  \<^verbatim>\<open>nil\<close> or a \<^verbatim>\<open>bool\<close>. A non-empty environment value that does not parse
  resolves to false, and a non-empty query or header value that does not parse
  is recorded as false.
\<close>

theorem core_operations_return:
  assumes "boolOrNil (Value ctx (FeatureKey (ToLower strings name)))"
  shows "(\<exists>b. IsEnabledCall strings (Some ctx) env defaultState name = Inr b)
       \<and> (Enable f reg) f = Some True
       \<and> (Disable f reg) f = Some False
       \<and> EnableInCtxCall (Some c) f = Inr (EnableInCtx c f)
       \<and> DisableInCtxCall (Some c) f = Inr (DisableInCtx c f)
       \<and> ReqWithFeatureCtxCall strings
            (Some \<lparr>ctxField = rc, URLField = Some q, HeaderField = h\<rparr>)
           = Inr (ReqWithFeatureCtx strings
                    \<lparr>reqCtx = (case rc of None \<Rightarrow> Background | Some x \<Rightarrow> x),
                     query = q, header = h\<rparr>)
       \<and> (Value ctx (FeatureKey (ToLower strings name)) = NilVal
            \<and> env (EnvPrefix @ ToUpper strings (ToLower strings name)) = Some v
            \<and> v \<noteq> [] \<and> snd (ParseBool v)
          \<longrightarrow> IsEnabledCall strings (Some ctx) env defaultState name = Inr False)
       \<and> (flagOf strings prefix k = Some g \<and> Get vs k \<noteq> [] \<and> snd (ParseBool (Get vs k))
          \<longrightarrow> fromValuesStep strings vs prefix c k = WithValue c (FeatureKey g) (BoolVal False))"
proof (intro conjI impI)
  show "\<exists>b. IsEnabledCall strings (Some ctx) env defaultState name = Inr b"
    using assms by (simp add: IsEnabledCall_def IsEnabled_returns)
next
  show "(Enable f reg) f = Some True"
    by (simp add: Enable_def)
next
  show "(Disable f reg) f = Some False"
    by (simp add: Disable_def)
next
  show "EnableInCtxCall (Some c) f = Inr (EnableInCtx c f)"
    by (simp add: EnableInCtxCall_def)
next
  show "DisableInCtxCall (Some c) f = Inr (DisableInCtx c f)"
    by (simp add: DisableInCtxCall_def)
next
  show "ReqWithFeatureCtxCall strings
            (Some \<lparr>ctxField = rc, URLField = Some q, HeaderField = h\<rparr>)
           = Inr (ReqWithFeatureCtx strings
                    \<lparr>reqCtx = (case rc of None \<Rightarrow> Background | Some x \<Rightarrow> x),
                     query = q, header = h\<rparr>)"
    by (simp add: ReqWithFeatureCtxCall_def ContextOf_def)
next
  assume "Value ctx (FeatureKey (ToLower strings name)) = NilVal
            \<and> env (EnvPrefix @ ToUpper strings (ToLower strings name)) = Some v
            \<and> v \<noteq> [] \<and> snd (ParseBool v)"
  then show "IsEnabledCall strings (Some ctx) env defaultState name = Inr False"
    by (simp add: IsEnabledCall_def IsEnabled_def isEnabledInEnv_def Getenv_def
        ParseBool_value ParseBool_error Let_def)
next
  assume "flagOf strings prefix k = Some g \<and> Get vs k \<noteq> [] \<and> snd (ParseBool (Get vs k))"
  then show "fromValuesStep strings vs prefix c k = WithValue c (FeatureKey g) (BoolVal False)"
    by (auto simp: fromValuesStep_def flagOf_def ParseBool_value ParseBool_error Let_def
        split: if_splits)
qed

theorem core_operations_return_witness:
  "boolOrNil (Value Background (FeatureKey (ToLower ascii ''Paginate'')))
   \<and> (\<exists>b. IsEnabledCall ascii (Some Background) [''X_FEATURE_PAGINATE'' \<mapsto> ''maybe'']
             (Enable ''paginate'' Map.empty) ''Paginate'' = Inr b)
   \<and> IsEnabledCall ascii (Some Background) [''X_FEATURE_PAGINATE'' \<mapsto> ''maybe'']
        (Enable ''paginate'' Map.empty) ''Paginate'' = Inr False
   \<and> (Enable ''paginate'' Map.empty) ''paginate'' = Some True
   \<and> EnableInCtxCall (Some Background) ''paginate'' = Inr (EnableInCtx Background ''paginate'')
   \<and> fromValuesStep ascii [(''Feature-Beta'', [''on''])] QueryPrefix Background ''Feature-Beta''
        = WithValue Background (FeatureKey ''beta'') (BoolVal False)"
proof -
  have h: "boolOrNil (Value Background (FeatureKey (ToLower ascii ''Paginate'')))"
    by code_simp
  have a: "Value Background (FeatureKey (ToLower ascii ''Paginate'')) = NilVal
           \<and> [''X_FEATURE_PAGINATE'' \<mapsto> ''maybe'']
               (EnvPrefix @ ToUpper ascii (ToLower ascii ''Paginate'')) = Some ''maybe''
           \<and> ''maybe'' \<noteq> [] \<and> snd (ParseBool ''maybe'')"
    by code_simp
  have b: "flagOf ascii QueryPrefix ''Feature-Beta'' = Some ''beta''
           \<and> Get [(''Feature-Beta'', [''on''])] ''Feature-Beta'' \<noteq> []
           \<and> snd (ParseBool (Get [(''Feature-Beta'', [''on''])] ''Feature-Beta''))"
    by code_simp
  from core_operations_return [OF h, where env = "[''X_FEATURE_PAGINATE'' \<mapsto> ''maybe'']"
      and defaultState = "Enable ''paginate'' Map.empty" and v = "''maybe''"
      and prefix = QueryPrefix and k = "''Feature-Beta''" and g = "''beta''"
      and vs = "[(''Feature-Beta'', [''on''])]" and c = Background and f = "''paginate''"
      and reg = Map.empty] h a b
  show ?thesis by blast
qed

text \<open>
  C9 as stated, for every input, fails. The type assertion of \<open>IsEnabled\<close>
  panics on a context that holds a value that is not a \<^verbatim>\<open>bool\<close> under the flag's
  key, and \<open>IsEnabled\<close> dereferences a \<^verbatim>\<open>nil\<close> context; \<open>EnableInCtx\<close> and
  \<open>DisableInCtx\<close> panic on a \<^verbatim>\<open>nil\<close> context; \<open>ReqWithFeatureCtx\<close> panics
  on a \<^verbatim>\<open>nil\<close> request and on a request without a URL.
\<close>

theorem core_operations_return_counterexample:
  "IsEnabledCall ascii (Some (WithValue Background (FeatureKey ''beta'') (OtherVal ''1'')))
     Map.empty Map.empty ''Beta'' = Inl TypeAssertionPanic
   \<and> IsEnabledCall ascii None Map.empty Map.empty ''Beta'' = Inl NilDereferencePanic
   \<and> EnableInCtxCall None ''beta'' = Inl NilParentPanic
   \<and> DisableInCtxCall None ''beta'' = Inl NilParentPanic
   \<and> ReqWithFeatureCtxCall ascii None = Inl NilDereferencePanic
   \<and> ReqWithFeatureCtxCall ascii
        (Some \<lparr>ctxField = None, URLField = None,
               HeaderField = [(''X-Feature-Beta'', [''1''])]\<rparr>) = Inl NilDereferencePanic"
  by code_simp

section \<open>Derivation leaves the caller's objects alone\<close>

lemma chain_append: "p < length h \<Longrightarrow> chain (h @ ext) p = chain h p"
proof (induction h p rule: chain.induct)
  case (1 h p)
  show ?case
  proof (cases "h ! p")
    case emptyCtx
    with "1.prems" show ?thesis
      by (simp add: chain.simps [of h p] chain.simps [of "h @ ext" p] nth_append)
  next
    case (valueCtx parent k v)
    show ?thesis
    proof (cases "parent < p")
      case True
      with "1.prems" have "parent < length h" by simp
      with "1.IH" [OF "1.prems" valueCtx True]
      have "chain (h @ ext) parent = chain h parent" by simp
      with "1.prems" valueCtx True show ?thesis
        by (simp add: chain.simps [of h p] chain.simps [of "h @ ext" p] nth_append)
    next
      case False
      with "1.prems" valueCtx show ?thesis
        by (simp add: chain.simps [of h p] chain.simps [of "h @ ext" p] nth_append)
    qed
  qed
qed

lemma chain_take:
  assumes "take n h' = h" and "n = length h" and "p < n"
  shows "chain h' p = chain h p"
proof -
  have "h' = h @ drop n h'" using assms(1) by (metis append_take_drop_id)
  then have "chain h' p = chain (h @ drop n h') p" by simp
  also have "\<dots> = chain h p" using assms(2,3) by (simp add: chain_append)
  finally show ?thesis .
qed

lemma chain_new:
  "parent < length h \<Longrightarrow>
   chain (h @ [valueCtx parent k v]) (length h) = WithValue (chain h parent) k v"
  by (simp add: chain.simps [of "h @ [valueCtx parent k v]" "length h"] chain_append)

lemma fromValuesStepAt_props:
  assumes "snd sc < length (contexts (fst sc))"
  shows "take (length (contexts (fst sc))) (contexts (fst (fromValuesStepAt strings values prefix sc k)))
           = contexts (fst sc)"
    and "requests (fst (fromValuesStepAt strings values prefix sc k)) = requests (fst sc)"
    and "snd (fromValuesStepAt strings values prefix sc k)
           < length (contexts (fst (fromValuesStepAt strings values prefix sc k)))"
    and "chain (contexts (fst (fromValuesStepAt strings values prefix sc k)))
           (snd (fromValuesStepAt strings values prefix sc k))
         = fromValuesStep strings values prefix (chain (contexts (fst sc)) (snd sc)) k"
  using assms
  by (simp_all add: fromValuesStepAt_def fromValuesStep_def WithValueAt_def chain_new Let_def)

lemma take_take_eq:
  assumes "take (length a) b = a" and "take (length b) c = b"
  shows "take (length a) c = a"
proof -
  have "length (take (length a) b) = length a" using assms(1) by simp
  then have "length a \<le> length b" by simp
  then have "take (length a) c = take (length a) (take (length b) c)" by simp
  with assms show ?thesis by simp
qed

lemma fromValuesLoopAt_props:
  assumes "snd sc < length (contexts (fst sc))"
  shows "take (length (contexts (fst sc))) (contexts (fst (fromValuesLoopAt strings values prefix sc ks)))
           = contexts (fst sc)
       \<and> requests (fst (fromValuesLoopAt strings values prefix sc ks)) = requests (fst sc)
       \<and> snd (fromValuesLoopAt strings values prefix sc ks)
           < length (contexts (fst (fromValuesLoopAt strings values prefix sc ks)))
       \<and> chain (contexts (fst (fromValuesLoopAt strings values prefix sc ks)))
           (snd (fromValuesLoopAt strings values prefix sc ks))
         = fromValuesLoop strings values prefix (chain (contexts (fst sc)) (snd sc)) ks"
  using assms
proof (induction ks arbitrary: sc)
  case Nil
  then show ?case by simp
next
  case (Cons k ks)
  let ?sc = "fromValuesStepAt strings values prefix sc k"
  note step = fromValuesStepAt_props [OF Cons.prems, of strings "values" prefix k]
  note ih = Cons.IH [OF step(3)]
  have "take (length (contexts (fst sc))) (contexts (fst (fromValuesLoopAt strings values prefix ?sc ks)))
          = contexts (fst sc)"
    using step(1) ih by (blast intro: take_take_eq)
  with ih step show ?case by simp
qed

text \<open>
  C7. \<open>EnableInCtx\<close> and \<open>DisableInCtx\<close> allocate one new context object and
  change no object that exists: for every allocated context \<open>q\<close>, the input
  context among them, the object is as before and every \<open>IsEnabled\<close> against it
  returns what it returned before. The pointer returned is new, and the chain
  it stands for is the input's chain with the boolean recorded for the flag.
\<close>

theorem EnableInCtx_leaves_input:
  assumes "ctx < length (contexts s)" and "q < length (contexts s)"
  shows "contexts (fst (EnableInCtxAt s ctx f)) ! q = contexts s ! q
       \<and> IsEnabled strings (chain (contexts (fst (EnableInCtxAt s ctx f))) q) env defaultState name
           = IsEnabled strings (chain (contexts s) q) env defaultState name
       \<and> snd (EnableInCtxAt s ctx f) = length (contexts s)
       \<and> chain (contexts (fst (EnableInCtxAt s ctx f))) (snd (EnableInCtxAt s ctx f))
           = EnableInCtx (chain (contexts s) ctx) f
       \<and> contexts (fst (DisableInCtxAt s ctx f)) ! q = contexts s ! q
       \<and> IsEnabled strings (chain (contexts (fst (DisableInCtxAt s ctx f))) q) env defaultState name
           = IsEnabled strings (chain (contexts s) q) env defaultState name
       \<and> snd (DisableInCtxAt s ctx f) = length (contexts s)
       \<and> chain (contexts (fst (DisableInCtxAt s ctx f))) (snd (DisableInCtxAt s ctx f))
           = DisableInCtx (chain (contexts s) ctx) f"
  using assms
  by (simp add: EnableInCtxAt_def DisableInCtxAt_def WithValueAt_def chain_new chain_append
        nth_append EnableInCtx_def DisableInCtx_def)

theorem EnableInCtx_leaves_input_witness:
  "(1::nat) < length (contexts
       \<lparr>contexts = [emptyCtx, valueCtx 0 (FeatureKey ''paginate'') (BoolVal False)],
        requests = []\<rparr>)
   \<and> IsEnabled ascii (chain (contexts (fst (EnableInCtxAt
         \<lparr>contexts = [emptyCtx, valueCtx 0 (FeatureKey ''paginate'') (BoolVal False)],
          requests = []\<rparr> 1 ''paginate''))) 1) Map.empty Map.empty ''paginate''
       = Inr False
   \<and> IsEnabled ascii (chain (contexts (fst (EnableInCtxAt
         \<lparr>contexts = [emptyCtx, valueCtx 0 (FeatureKey ''paginate'') (BoolVal False)],
          requests = []\<rparr> 1 ''paginate'')))
        (snd (EnableInCtxAt
         \<lparr>contexts = [emptyCtx, valueCtx 0 (FeatureKey ''paginate'') (BoolVal False)],
          requests = []\<rparr> 1 ''paginate''))) Map.empty Map.empty ''paginate''
       = Inr True"
proof -
  let ?s = "\<lparr>contexts = [emptyCtx, valueCtx 0 (FeatureKey ''paginate'') (BoolVal False)],
             requests = []\<rparr>"
  have h: "(1::nat) < length (contexts ?s)"
    by simp
  have before: "IsEnabled ascii (chain (contexts ?s) 1) Map.empty Map.empty ''paginate'' = Inr False"
    by code_simp
  have derived: "IsEnabled ascii (EnableInCtx (chain (contexts ?s) 1) ''paginate'') Map.empty Map.empty
                   ''paginate'' = Inr True"
    by code_simp
  note frame =
    EnableInCtx_leaves_input [OF h h, of "''paginate''" ascii Map.empty Map.empty
      "''paginate''"]
  have same: "IsEnabled ascii (chain (contexts (fst (EnableInCtxAt ?s 1 ''paginate''))) 1)
                Map.empty Map.empty ''paginate'' = Inr False"
    by (simp only: frame [THEN conjunct2, THEN conjunct1] before)
  have new: "IsEnabled ascii (chain (contexts (fst (EnableInCtxAt ?s 1 ''paginate'')))
               (snd (EnableInCtxAt ?s 1 ''paginate''))) Map.empty Map.empty ''paginate''
             = Inr True"
    by (simp only: frame [THEN conjunct2, THEN conjunct2, THEN conjunct2, THEN conjunct1]
        derived)
  from h same new show ?thesis by (intro conjI)
qed

text \<open>
  C8. \<open>ReqWithFeatureCtx\<close> on an allocated request returns a pointer to a new
  request object, distinct from the input. Every request object that existed,
  the input among them, is as before, with its context pointer, query and
  header; every context object that existed is as before. The new request has
  the query and header of the input and the derived context.
\<close>

theorem ReqWithFeatureCtx_leaves_input:
  assumes "r < length (requests s)" and "ctxPtr (requests s ! r) < length (contexts s)"
  shows "\<exists>s' r'. ReqWithFeatureCtxAt strings s r = Some (s', r')
           \<and> r' = length (requests s)
           \<and> r' \<noteq> r
           \<and> take (length (requests s)) (requests s') = requests s
           \<and> requests s' ! r = requests s ! r
           \<and> take (length (contexts s)) (contexts s') = contexts s
           \<and> requestOf s' r = requestOf s r
           \<and> requestOf s' r' = ReqWithFeatureCtx strings (requestOf s r)"
proof -
  define req where "req = requests s ! r"
  define sc0 where "sc0 = (s, ctxPtr req)"
  define sc1 where "sc1 = fromValuesLoopAt strings (URLQuery req) QueryPrefix sc0 (map fst (URLQuery req))"
  define sc2 where "sc2 = fromValuesLoopAt strings (Header req) HeaderPrefix sc1 (map fst (Header req))"
  define s' where "s' = (fst sc2)\<lparr>requests := requests (fst sc2) @ [req\<lparr>ctxPtr := snd sc2\<rparr>]\<rparr>"
  have ok0: "snd sc0 < length (contexts (fst sc0))"
    using assms(2) by (simp add: sc0_def req_def)
  note p1 = fromValuesLoopAt_props [OF ok0, of strings "URLQuery req" QueryPrefix "map fst (URLQuery req)",
      folded sc1_def]
  from p1 have ok1: "snd sc1 < length (contexts (fst sc1))" by simp
  note p2 = fromValuesLoopAt_props [OF ok1, of strings "Header req" HeaderPrefix "map fst (Header req)",
      folded sc2_def]
  have res: "ReqWithFeatureCtxAt strings s r = Some (s', length (requests s))"
    using assms(1) p1 p2
    by (simp add: ReqWithFeatureCtxAt_def fromValuesAt_def Let_def s'_def sc2_def sc1_def sc0_def
          req_def)
  have reqs: "requests s' = requests s @ [req\<lparr>ctxPtr := snd sc2\<rparr>]"
    using p1 p2 by (simp add: s'_def sc0_def)
  have ctxs: "take (length (contexts s)) (contexts s') = contexts s"
  proof -
    have "take (length (contexts (fst sc0))) (contexts (fst sc2)) = contexts (fst sc0)"
      using p1 p2 by (blast intro: take_take_eq)
    then show ?thesis by (simp add: s'_def sc0_def)
  qed
  have old: "requests s' ! r = requests s ! r"
    using assms(1) by (simp add: reqs nth_append)
  have same: "requestOf s' r = requestOf s r"
    using assms(2) chain_take [OF ctxs refl, of "ctxPtr (requests s ! r)"]
    by (simp add: requestOf_def old)
  have new: "requestOf s' (length (requests s)) = ReqWithFeatureCtx strings (requestOf s r)"
    using p1 p2
    by (simp add: requestOf_def reqs s'_def ReqWithFeatureCtx_def fromValues_def Let_def
          sc0_def req_def)
  from res reqs ctxs old same new assms(1) show ?thesis by auto
qed

theorem ReqWithFeatureCtx_leaves_input_witness:
  "(0::nat) < length (requests
       \<lparr>contexts = [emptyCtx],
        requests = [\<lparr>ctxPtr = 0, URLQuery = [(''feature-paginate'', [''0''])],
                     Header = [(''X-Feature-Paginate'', [''1''])]\<rparr>]\<rparr>)
   \<and> (\<exists>s' r'. ReqWithFeatureCtxAt ascii
         \<lparr>contexts = [emptyCtx],
          requests = [\<lparr>ctxPtr = 0, URLQuery = [(''feature-paginate'', [''0''])],
                       Header = [(''X-Feature-Paginate'', [''1''])]\<rparr>]\<rparr> 0 = Some (s', r')
        \<and> r' = 1
        \<and> requests s' ! 0 = \<lparr>ctxPtr = 0, URLQuery = [(''feature-paginate'', [''0''])],
                                Header = [(''X-Feature-Paginate'', [''1''])]\<rparr>
        \<and> take 1 (contexts s') = [emptyCtx]
        \<and> IsEnabled ascii (reqCtx (requestOf s' 0)) Map.empty Map.empty ''paginate'' = Inr False
        \<and> IsEnabled ascii (reqCtx (requestOf s' r')) Map.empty Map.empty ''paginate'' = Inr True)"
proof -
  let ?req = "\<lparr>ctxPtr = 0, URLQuery = [(''feature-paginate'', [''0''])],
               Header = [(''X-Feature-Paginate'', [''1''])]\<rparr>"
  let ?s = "\<lparr>contexts = [emptyCtx], requests = [?req]\<rparr>"
  have h1: "(0::nat) < length (requests ?s)"
    by simp
  have h2: "ctxPtr (requests ?s ! 0) < length (contexts ?s)"
    by simp
  have before: "IsEnabled ascii (reqCtx (requestOf ?s 0)) Map.empty Map.empty ''paginate'' = Inr False"
    by code_simp
  have derived: "IsEnabled ascii (reqCtx (ReqWithFeatureCtx ascii (requestOf ?s 0))) Map.empty Map.empty
                   ''paginate'' = Inr True"
    by code_simp
  from ReqWithFeatureCtx_leaves_input [OF h1 h2]
  obtain s' r' where r: "ReqWithFeatureCtxAt ascii ?s 0 = Some (s', r')"
    and "r' = length (requests ?s)"
    and "requests s' ! 0 = requests ?s ! 0"
    and "take (length (contexts ?s)) (contexts s') = contexts ?s"
    and "requestOf s' 0 = requestOf ?s 0"
    and "requestOf s' r' = ReqWithFeatureCtx ascii (requestOf ?s 0)"
    by blast
  with before derived have "ReqWithFeatureCtxAt ascii ?s 0 = Some (s', r')
        \<and> r' = 1
        \<and> requests s' ! 0 = ?req
        \<and> take 1 (contexts s') = [emptyCtx]
        \<and> IsEnabled ascii (reqCtx (requestOf s' 0)) Map.empty Map.empty ''paginate'' = Inr False
        \<and> IsEnabled ascii (reqCtx (requestOf s' r')) Map.empty Map.empty ''paginate'' = Inr True"
    by simp
  then have "\<exists>s' r'. ReqWithFeatureCtxAt ascii ?s 0 = Some (s', r')
        \<and> r' = 1
        \<and> requests s' ! 0 = ?req
        \<and> take 1 (contexts s') = [emptyCtx]
        \<and> IsEnabled ascii (reqCtx (requestOf s' 0)) Map.empty Map.empty ''paginate'' = Inr False
        \<and> IsEnabled ascii (reqCtx (requestOf s' r')) Map.empty Map.empty ''paginate'' = Inr True"
    by blast
  with h1 show ?thesis by (rule conjI)
qed

end
